theory Spec2Isabelle
  imports Main "HOL-Library.AList"
begin

section \<open>ngAdvancedCache 0.6.0: the cache instance\<close>

text \<open>
  A shallow embedding of \<^verbatim>\<open>src/dist/ngAdvancedCache-0.6.0.js\<close>: the closure
  \<^verbatim>\<open>AdvancedCache(cacheId, options)\<close> with its private variables
  (\<^verbatim>\<open>size\<close>, \<^verbatim>\<open>config\<close>, \<^verbatim>\<open>data\<close>, \<^verbatim>\<open>lruHash\<close>,
  \<^verbatim>\<open>freshEnd\<close>, \<^verbatim>\<open>staleEnd\<close>) as a record, the LRU entries as objects in
  an explicit store, and the host's timer service as a list of pending timers.
\<close>

subsection \<open>JavaScript values\<close>

text \<open>
  Numbers are the integer-valued ones. \<^verbatim>\<open>undefined\<close> and \<^verbatim>\<open>null\<close> are
  kept apart: \<^verbatim>\<open>!==\<close> tells them apart, truthiness does not.
\<close>

datatype jsval = JUndefined | JNull | JBool bool | JNumber int | JString string

text \<open>What \<^verbatim>\<open>if (v)\<close> tests.\<close>

fun truthy :: "jsval \<Rightarrow> bool" where
  "truthy JUndefined = False"
| "truthy JNull = False"
| "truthy (JBool b) = b"
| "truthy (JNumber i) = (i \<noteq> 0)"
| "truthy (JString s) = (s \<noteq> [])"

text \<open>\<^verbatim>\<open>angular.isString\<close>, \<^verbatim>\<open>angular.isNumber\<close>, \<^verbatim>\<open>angular.isUndefined\<close>
  (\<^verbatim>\<open>typeof\<close> tests).\<close>

fun isString :: "jsval \<Rightarrow> bool" where
  "isString (JString s) = True"
| "isString v = False"

fun isNumber :: "jsval \<Rightarrow> bool" where
  "isNumber (JNumber i) = True"
| "isNumber v = False"

fun isUndefined :: "jsval \<Rightarrow> bool" where
  "isUndefined JUndefined = True"
| "isUndefined v = False"

text \<open>
  The conversion to a number that \<^verbatim>\<open><\<close> and \<^verbatim>\<open>>\<close> apply to an operand;
  \<open>None\<close> is NaN, against which every comparison is false. Numeric strings are not
  parsed: a string converts to NaN here. (A string is compared only by a validator, which
  has failed it as not a number already: its conversion decides whether the second message
  is appended to the first. Capacities and delays of a cache that was created are numbers.)
\<close>

fun toNumber :: "jsval \<Rightarrow> int option" where
  "toNumber JUndefined = None"
| "toNumber JNull = Some 0"
| "toNumber (JBool b) = Some (if b then 1 else 0)"
| "toNumber (JNumber i) = Some i"
| "toNumber (JString s) = None"

definition js_less :: "jsval \<Rightarrow> jsval \<Rightarrow> bool" where
  "js_less a b = (case (toNumber a, toNumber b) of (Some x, Some y) \<Rightarrow> x < y | _ \<Rightarrow> False)"

text \<open>The decimal numeral of a number, for its use as a property name (a number from
  \<open>10\<^sup>2\<^sup>1\<close> on, which JavaScript prints with an exponent, is printed in full here).\<close>

fun digits :: "nat \<Rightarrow> string" where
  "digits k = (if k < 10 then [''0123456789'' ! k] else digits (k div 10) @ [''0123456789'' ! (k mod 10)])"

declare digits.simps [simp del]

text \<open>The property name \<^verbatim>\<open>obj[key]\<close> looks up: the key converted to a string.\<close>

fun toProp :: "jsval \<Rightarrow> string" where
  "toProp JUndefined = ''undefined''"
| "toProp JNull = ''null''"
| "toProp (JBool b) = (if b then ''true'' else ''false'')"
| "toProp (JNumber i) = (if i < 0 then CHR ''-'' # digits (nat (- i)) else digits (nat i))"
| "toProp (JString s) = s"

text \<open>
  A plain object is its list of properties in insertion order: \<^verbatim>\<open>obj[k] = v\<close> is
  \<^const>\<open>AList.update\<close> (in place for a property that exists, at the end for a new one),
  \<^verbatim>\<open>delete obj[k]\<close> is \<^const>\<open>AList.delete\<close>. These are the properties of the
  object itself.
\<close>

type_synonym 'a obj = "(string \<times> 'a) list"

text \<open>
  \<^verbatim>\<open>data\<close> and \<^verbatim>\<open>lruHash\<close> are made by \<^verbatim>\<open>{}\<close>, so \<^verbatim>\<open>k in obj\<close> and
  \<^verbatim>\<open>obj[k]\<close> also find the properties they inherit from \<^verbatim>\<open>Object.prototype\<close>,
  under these names (those of ECMAScript 5 and the accessors that the engines add to
  them). Each of them holds an object of the host (a function; for
  \<^verbatim>\<open>__proto__\<close>, \<^verbatim>\<open>Object.prototype\<close> itself), which is truthy and has no
  property \<^verbatim>\<open>key\<close>, \<^verbatim>\<open>value\<close> or \<^verbatim>\<open>timeoutId\<close>. An assignment or a
  \<^verbatim>\<open>delete\<close> acts on the object itself and leaves what is inherited in place.
  \<^verbatim>\<open>__proto__\<close> is taken as one more inherited name: that assigning to it replaces the
  prototype, and that properties assigned to \<^verbatim>\<open>Object.prototype\<close> are inherited by
  every object, is not modelled.
\<close>

definition protoNames :: "string list" where
  "protoNames =
     [''constructor'', ''hasOwnProperty'', ''isPrototypeOf'', ''propertyIsEnumerable'',
      ''toLocaleString'', ''toString'', ''valueOf'', ''__defineGetter__'', ''__defineSetter__'',
      ''__lookupGetter__'', ''__lookupSetter__'', ''__proto__'']"

text \<open>\<^verbatim>\<open>angular.extend(dst, src)\<close>: every property of \<^verbatim>\<open>src\<close> is assigned to
  \<^verbatim>\<open>dst\<close>; a \<^verbatim>\<open>null\<close> or \<^verbatim>\<open>undefined\<close> source is skipped.\<close>

definition angular_extend :: "'a obj \<Rightarrow> 'a obj \<Rightarrow> 'a obj" where
  "angular_extend dst src = fold (\<lambda>(k, v). AList.update k v) src dst"

text \<open>\<^verbatim>\<open>Number.MAX_VALUE\<close>, the largest double: \<open>(2 - 2\<^sup>-\<^sup>5\<^sup>2) * 2\<^sup>1\<^sup>0\<^sup>2\<^sup>3\<close>.\<close>

definition MAX_VALUE :: int where
  "MAX_VALUE = 2 ^ 1024 - 2 ^ 971"

subsection \<open>Errors\<close>

text \<open>\<^verbatim>\<open>throw new Error(msg)\<close>, and the \<^verbatim>\<open>TypeError\<close> the engine raises when a
  property of \<^verbatim>\<open>null\<close> or \<^verbatim>\<open>undefined\<close> is read or written.\<close>

datatype error = Error string | TypeError

subsection \<open>The store of LRU entries\<close>

text \<open>
  An LRU entry is the object \<^verbatim>\<open>{key: key}\<close> that \<^verbatim>\<open>put\<close> creates, with the
  links \<^verbatim>\<open>n\<close> (next, towards the fresh end) and \<^verbatim>\<open>p\<close> (previous, towards the
  stale end) that \<^verbatim>\<open>_link\<close> and \<^verbatim>\<open>_refresh\<close> assign. Objects are compared by
  identity, so each lives at an address of the store; an object is never freed. An object
  that \<^verbatim>\<open>lruHash\<close> inherits is handled by the code as an LRU entry too: it enters the
  store, with none of the three properties assigned, when the cache first reaches it.
\<close>

type_synonym addr = nat

datatype ref = Undefined | Null | Obj addr

record lruEntry =
  key :: jsval
  n :: ref
  p :: ref

fun isObj :: "ref \<Rightarrow> bool" where
  "isObj (Obj a) = True"
| "isObj r = False"

definition set_n :: "addr \<Rightarrow> ref \<Rightarrow> lruEntry list \<Rightarrow> lruEntry list" where
  "set_n a r h = h[a := (h ! a)\<lparr>n := r\<rparr>]"

definition set_p :: "addr \<Rightarrow> ref \<Rightarrow> lruEntry list \<Rightarrow> lruEntry list" where
  "set_p a r h = h[a := (h ! a)\<lparr>p := r\<rparr>]"

text \<open>\<^verbatim>\<open>_link(nextEntry, prevEntry)\<close>, lines 182-191.\<close>

definition link :: "ref \<Rightarrow> ref \<Rightarrow> lruEntry list \<Rightarrow> lruEntry list" where
  "link nextEntry prevEntry h =
     (if nextEntry \<noteq> prevEntry then
        let h1 = (case nextEntry of Obj a \<Rightarrow> set_p a prevEntry h | _ \<Rightarrow> h)
        in (case prevEntry of Obj b \<Rightarrow> set_n b nextEntry h1 | _ \<Rightarrow> h1)
      else h)"

subsection \<open>The timer service\<close>

text \<open>
  The two closures the cache hands to the host: the expiry of a key
  (\<^verbatim>\<open>function () { self.remove(key); }\<close>, line 249) and the flush of the whole cache
  (lines 95-103).
\<close>

datatype callback = Expire jsval | Flush

text \<open>
  A pending timer: its handle, the time it is due, its period (\<open>None\<close> for
  \<^verbatim>\<open>setTimeout\<close>, the interval for \<^verbatim>\<open>setInterval\<close>) and its callback.
\<close>

record timer =
  handle :: int
  due :: int
  period :: "int option"
  action :: callback

text \<open>An entry of \<^verbatim>\<open>data\<close>: \<^verbatim>\<open>{value: value}\<close>, to which \<^verbatim>\<open>put\<close> may add
  \<^verbatim>\<open>timestamp\<close> and \<^verbatim>\<open>timeoutId\<close>; a property that was not set reads
  \<^verbatim>\<open>undefined\<close>.\<close>

record item =
  val :: jsval
  timestamp :: jsval
  timeoutId :: jsval

record cache =
  sizeC :: int
  config :: "jsval obj option"
  data :: "item obj option"
  lruHash :: "addr obj option"
  freshEnd :: ref
  staleEnd :: ref
  heap :: "lruEntry list"
  protoObjs :: "addr obj"
  timers :: "timer list"
  nextHandle :: int
  now :: int

text \<open>\<^verbatim>\<open>setTimeout\<close> and \<^verbatim>\<open>setInterval\<close> return a fresh positive handle;
  \<^verbatim>\<open>clearTimeout\<close> and \<^verbatim>\<open>clearInterval\<close> drop the timer with that handle, and
  do nothing for a value that is no handle.\<close>

definition delayOf :: "jsval \<Rightarrow> int" where
  "delayOf v = (case toNumber v of Some d \<Rightarrow> d | None \<Rightarrow> 0)"

definition setTimeout :: "callback \<Rightarrow> jsval \<Rightarrow> cache \<Rightarrow> jsval \<times> cache" where
  "setTimeout cb delay c =
     (JNumber (nextHandle c),
      c\<lparr>timers := timers c @ [\<lparr>handle = nextHandle c, due = now c + delayOf delay,
                                period = None, action = cb\<rparr>],
        nextHandle := nextHandle c + 1\<rparr>)"

definition setInterval :: "callback \<Rightarrow> jsval \<Rightarrow> cache \<Rightarrow> jsval \<times> cache" where
  "setInterval cb delay c =
     (JNumber (nextHandle c),
      c\<lparr>timers := timers c @ [\<lparr>handle = nextHandle c, due = now c + delayOf delay,
                                period = Some (delayOf delay), action = cb\<rparr>],
        nextHandle := nextHandle c + 1\<rparr>)"

definition clearTimeout :: "jsval \<Rightarrow> cache \<Rightarrow> cache" where
  "clearTimeout v c =
     (case v of JNumber i \<Rightarrow> c\<lparr>timers := filter (\<lambda>t. handle t \<noteq> i) (timers c)\<rparr> | _ \<Rightarrow> c)"

subsection \<open>Creating a cache\<close>

definition getProp :: "jsval obj \<Rightarrow> string \<Rightarrow> jsval" where
  "getProp ob k = (case map_of ob k of Some v \<Rightarrow> v | None \<Rightarrow> JUndefined)"

text \<open>\<^verbatim>\<open>_validateCapacity\<close> (lines 113-120) and \<^verbatim>\<open>_validateCacheFlushInterval\<close>
  (lines 129-136) read \<^verbatim>\<open>config\<close>, not their parameter; \<^verbatim>\<open>_validateMaxAge\<close>
  (lines 145-152) reads its parameter.\<close>

definition validateCapacity :: "jsval obj \<Rightarrow> string" where
  "validateCapacity cfg =
     (if truthy (getProp cfg ''capacity'') then
        (if \<not> isNumber (getProp cfg ''capacity'') then ''capacity must be a number!;'' else [])
        @ (if js_less (getProp cfg ''capacity'') (JNumber 0)
           then ''capacity must be greater than zero!;'' else [])
      else [])"

definition validateCacheFlushInterval :: "jsval obj \<Rightarrow> string" where
  "validateCacheFlushInterval cfg =
     (if truthy (getProp cfg ''cacheFlushInterval'') then
        (if \<not> isNumber (getProp cfg ''cacheFlushInterval'')
         then ''cacheFlushInterval must be a number!;'' else [])
        @ (if js_less (getProp cfg ''cacheFlushInterval'') (JNumber 0)
           then ''cacheFlushInterval must be greater than zero!;'' else [])
      else [])"

definition validateMaxAge :: "jsval \<Rightarrow> string" where
  "validateMaxAge maxAge =
     (if truthy maxAge then
        (if \<not> isNumber maxAge then ''maxAge must be a number!;'' else [])
        @ (if js_less maxAge (JNumber 0) then ''maxAge must be greater than zero!;'' else [])
      else [])"

text \<open>
  The constructor, lines 73-104, at time \<open>t\<close> of the host's clock. \<open>options\<close> is the
  options object (\<open>[]\<close> when none is given: \<^verbatim>\<open>angular.extend\<close> skips
  \<^verbatim>\<open>undefined\<close>). \<open>protoObjs\<close> maps an inherited name to the address of its
  object once the cache has reached it; the objects belong to the host, and the model is of
  one instance in a host where nothing else has assigned \<^verbatim>\<open>n\<close>, \<^verbatim>\<open>p\<close> or
  \<^verbatim>\<open>key\<close> to them.
\<close>

definition AdvancedCache :: "int \<Rightarrow> jsval \<Rightarrow> jsval obj \<Rightarrow> error + cache" where
  "AdvancedCache t cacheId options =
     (let cfg = angular_extend (angular_extend [] options) [(''id'', cacheId)];
          errorMsg = validateCapacity cfg @ validateMaxAge (getProp cfg ''maxAge'')
                     @ validateCacheFlushInterval cfg
      in if errorMsg \<noteq> [] then Inl (Error errorMsg)
         else
           let cfg1 = (if \<not> truthy (getProp cfg ''capacity'')
                       then AList.update ''capacity'' (JNumber MAX_VALUE) cfg else cfg);
               c = \<lparr>sizeC = 0, config = Some cfg1, data = Some [], lruHash = Some [],
                    freshEnd = Null, staleEnd = Null, heap = [], protoObjs = [], timers = [],
                    nextHandle = 1, now = t\<rparr>
           in if truthy (getProp cfg1 ''cacheFlushInterval'') then
                (case setInterval Flush (getProp cfg1 ''cacheFlushInterval'') c of
                   (h, c1) \<Rightarrow>
                     Inr (c1\<lparr>config := Some (AList.update ''cacheFlushIntervalId'' h cfg1)\<rparr>))
              else Inr c)"

text \<open>The callback of the flush interval, lines 95-103. It leaves \<^verbatim>\<open>size\<close> as it
  is. A \<^verbatim>\<open>for ... in\<close> over \<^verbatim>\<open>null\<close> runs no iteration.\<close>

definition flush :: "cache \<Rightarrow> cache" where
  "flush c =
     (let c1 = (case data c of
                  Some d \<Rightarrow> fold (\<lambda>(k, it). clearTimeout (timeoutId it)) d c
                | None \<Rightarrow> c)
      in c1\<lparr>data := Some [], lruHash := Some [], freshEnd := Null, staleEnd := Null\<rparr>)"

subsection \<open>The LRU list\<close>

text \<open>\<^verbatim>\<open>_refresh(entry)\<close>, lines 160-173.\<close>

definition refresh :: "addr \<Rightarrow> cache \<Rightarrow> cache" where
  "refresh entry c =
     (if Obj entry \<noteq> freshEnd c then
        let c1 = (if \<not> isObj (staleEnd c) then c\<lparr>staleEnd := Obj entry\<rparr>
                  else if staleEnd c = Obj entry then c\<lparr>staleEnd := n (heap c ! entry)\<rparr>
                  else c);
            h1 = link (n (heap c1 ! entry)) (p (heap c1 ! entry)) (heap c1);
            h2 = link (Obj entry) (freshEnd c1) h1
        in c1\<lparr>heap := set_n entry Null h2, freshEnd := Obj entry\<rparr>
      else c)"

subsection \<open>The operations of a cache\<close>

text \<open>
  An operation returns what the call returns (\<open>Inr\<close>) or throws (\<open>Inl\<close>), and the state
  it leaves: a \<^verbatim>\<open>throw\<close> does not undo the assignments made before it.
\<close>

type_synonym 'a outcome = "(error + 'a) \<times> cache"

text \<open>Lines 306-312 of \<^verbatim>\<open>remove\<close>: the entry is taken out of the LRU list.\<close>

definition unlink :: "addr \<Rightarrow> cache \<Rightarrow> cache" where
  "unlink e c =
     (let lruEntry = heap c ! e;
          c1 = (if Obj e = freshEnd c then c\<lparr>freshEnd := p lruEntry\<rparr> else c);
          c2 = (if Obj e = staleEnd c1 then c1\<lparr>staleEnd := n lruEntry\<rparr> else c1)
      in c2\<lparr>heap := link (n lruEntry) (p lruEntry) (heap c2)\<rparr>)"

text \<open>The object that a plain object inherits under the name \<open>k\<close>, if any, at its
  address of the store.\<close>

definition inheritedObj :: "string \<Rightarrow> cache \<Rightarrow> (addr \<times> cache) option" where
  "inheritedObj k c =
     (if k \<in> set protoNames then
        (case map_of (protoObjs c) k of
           Some a \<Rightarrow> Some (a, c)
         | None \<Rightarrow>
             Some (length (heap c),
                   c\<lparr>heap := heap c @ [\<lparr>key = JUndefined, n = Undefined, p = Undefined\<rparr>],
                     protoObjs := AList.update k (length (heap c)) (protoObjs c)\<rparr>))
      else None)"

text \<open>\<^verbatim>\<open>lruHash[key]\<close> (lines 220, 275, 300): the entry registered under the name,
  else the object inherited under it, else \<^verbatim>\<open>undefined\<close>.\<close>

definition lruHashAt :: "addr obj \<Rightarrow> string \<Rightarrow> cache \<Rightarrow> (addr \<times> cache) option" where
  "lruHashAt lh k c = (case map_of lh k of Some e \<Rightarrow> Some (e, c) | None \<Rightarrow> inheritedObj k c)"

text \<open>\<^verbatim>\<open>remove(key)\<close>, lines 299-317. No timer is cleared.\<close>

definition remove :: "jsval \<Rightarrow> cache \<Rightarrow> jsval outcome" where
  "remove k c =
     (case lruHash c of
        None \<Rightarrow> (Inl TypeError, c)
      | Some lh \<Rightarrow>
          (case lruHashAt lh (toProp k) c of
             None \<Rightarrow> (Inr JUndefined, c)
           | Some (e, c0) \<Rightarrow>
               let c3 = unlink e c0;
                   c4 = c3\<lparr>lruHash := Some (AList.delete (toProp k) lh)\<rparr>
               in (case data c4 of
                     None \<Rightarrow> (Inl TypeError, c4)
                   | Some d \<Rightarrow>
                       (Inr JUndefined,
                        c4\<lparr>data := Some (AList.delete (toProp k) d), sizeC := sizeC c4 - 1\<rparr>))))"

text \<open>
  \<^verbatim>\<open>put(key, value, options)\<close>, lines 219-259, in the order of the source.
  \<open>maxAge\<close> is \<^verbatim>\<open>options && options.maxAge\<close> (\<open>JUndefined\<close> when no options are
  given).

  Line 220, \<^verbatim>\<open>lruHash[key] || (lruHash[key] = {key: key})\<close>: what \<^verbatim>\<open>lruHash\<close>
  holds or inherits under the key, and a new LRU entry, registered under the key, when
  there is neither. It runs before the key is checked.
\<close>

definition lruEntryFor :: "jsval \<Rightarrow> addr obj \<Rightarrow> cache \<Rightarrow> addr \<times> cache" where
  "lruEntryFor k lh c =
     (case lruHashAt lh (toProp k) c of
        Some (e, c0) \<Rightarrow> (e, c0)
      | None \<Rightarrow>
          (length (heap c),
           c\<lparr>heap := heap c @ [\<lparr>key = k, n = Undefined, p = Undefined\<rparr>],
             lruHash := Some (AList.update (toProp k) (length (heap c)) lh)\<rparr>))"

text \<open>Lines 237-242: \<^verbatim>\<open>size\<close> counts a key for which \<^verbatim>\<open>key in data\<close> is
  false, which it is neither for a key that \<^verbatim>\<open>data\<close> holds nor for an inherited
  name, and \<^verbatim>\<open>data[key]\<close> becomes a new object \<^verbatim>\<open>{value: value}\<close>.\<close>

definition storeValue :: "jsval \<Rightarrow> jsval \<Rightarrow> item obj \<Rightarrow> cache \<Rightarrow> cache" where
  "storeValue k v d c =
     (let c3 = (if map_of d (toProp k) = None \<and> toProp k \<notin> set protoNames
                then c\<lparr>sizeC := sizeC c + 1\<rparr> else c)
      in c3\<lparr>data := Some (AList.update (toProp k)
                  \<lparr>val = v, timestamp = JUndefined, timeoutId = JUndefined\<rparr> d)\<rparr>)"

text \<open>Lines 244-252, where \<open>it\<close> is the object just stored as \<^verbatim>\<open>data[key]\<close>: its
  \<^verbatim>\<open>timeoutId\<close> is read from that new object, and the assignments to its
  properties update \<^verbatim>\<open>data\<close> at the key.\<close>

definition armExpiry :: "jsval \<Rightarrow> jsval \<Rightarrow> jsval obj \<Rightarrow> item \<Rightarrow> cache \<Rightarrow> cache" where
  "armExpiry k maxAge cfg it c =
     (if truthy (getProp cfg ''maxAge'') \<or> truthy maxAge then
        let it1 = it\<lparr>timestamp := JNumber (now c)\<rparr>;
            c1 = (if truthy (timeoutId it1) then clearTimeout (timeoutId it1) c else c);
            (h, c2) = setTimeout (Expire k)
                        (if truthy maxAge then maxAge else getProp cfg ''maxAge'') c1
        in c2\<lparr>data := map_option (AList.update (toProp k) (it1\<lparr>timeoutId := h\<rparr>)) (data c2)\<rparr>
      else c)"

text \<open>Lines 254-258: \<^verbatim>\<open>if (size > config.capacity) this.remove(staleEnd.key)\<close>, then
  \<^verbatim>\<open>return value\<close>.\<close>

definition enforceCapacity :: "jsval \<Rightarrow> jsval obj \<Rightarrow> cache \<Rightarrow> jsval outcome" where
  "enforceCapacity v cfg c =
     (if js_less (getProp cfg ''capacity'') (JNumber (sizeC c)) then
        (case staleEnd c of
           Obj s \<Rightarrow>
             (case remove (key (heap c ! s)) c of
                (Inl e, c1) \<Rightarrow> (Inl e, c1)
              | (Inr u, c1) \<Rightarrow> (Inr v, c1))
         | _ \<Rightarrow> (Inl TypeError, c))
      else (Inr v, c))"

definition put :: "jsval \<Rightarrow> jsval \<Rightarrow> jsval \<Rightarrow> cache \<Rightarrow> jsval outcome" where
  "put k v maxAge c =
     (case lruHash c of
        None \<Rightarrow> (Inl TypeError, c)
      | Some lh \<Rightarrow>
          (case lruEntryFor k lh c of
             (lruEntry, c1) \<Rightarrow>
               if \<not> isString k then (Inl (Error ''The key must be a string!''), c1)
               else if truthy maxAge \<and> validateMaxAge maxAge \<noteq> []
                 then (Inl (Error (validateMaxAge maxAge)), c1)
               else
                 let c2 = refresh lruEntry c1
                 in if isUndefined v then (Inr JUndefined, c2)
                    else
                      (case data c2 of
                         None \<Rightarrow> (Inl TypeError, c2)
                       | Some d \<Rightarrow>
                           let c4 = storeValue k v d c2
                           in (case config c4 of
                                 None \<Rightarrow> (Inl TypeError, c4)
                               | Some cfg \<Rightarrow>
                                   enforceCapacity v cfg
                                     (armExpiry k maxAge cfg
                                        \<lparr>val = v, timestamp = JUndefined, timeoutId = JUndefined\<rparr>
                                        c4)))))"

text \<open>\<^verbatim>\<open>get(key)\<close>, lines 274-284. In \<^verbatim>\<open>data[key].value\<close> (line 283),
  \<^verbatim>\<open>data[key]\<close> is the item stored under the key, else the object inherited under
  it, which has no \<^verbatim>\<open>value\<close>, else \<^verbatim>\<open>undefined\<close>, of which no property can
  be read.\<close>

definition get :: "jsval \<Rightarrow> cache \<Rightarrow> jsval outcome" where
  "get k c =
     (case lruHash c of
        None \<Rightarrow> (Inl TypeError, c)
      | Some lh \<Rightarrow>
          (case lruHashAt lh (toProp k) c of
             None \<Rightarrow> (Inr JUndefined, c)
           | Some (e, c0) \<Rightarrow>
               let c1 = refresh e c0
               in (case data c1 of
                     None \<Rightarrow> (Inl TypeError, c1)
                   | Some d \<Rightarrow>
                       (case map_of d (toProp k) of
                          Some it \<Rightarrow> (Inr (val it), c1)
                        | None \<Rightarrow>
                            if toProp k \<in> set protoNames then (Inr JUndefined, c1)
                            else (Inl TypeError, c1)))))"

text \<open>\<^verbatim>\<open>removeAll()\<close>, lines 333-338. No timer is cleared.\<close>

definition removeAll :: "cache \<Rightarrow> jsval outcome" where
  "removeAll c =
     (Inr JUndefined,
      c\<lparr>data := Some [], sizeC := 0, lruHash := Some [], freshEnd := Null, staleEnd := Null\<rparr>)"

text \<open>\<^verbatim>\<open>destroy()\<close>, lines 352-358; the entry of the factory's registry
  (\<^verbatim>\<open>caches\<close>) is outside the instance.\<close>

definition destroy :: "cache \<Rightarrow> jsval outcome" where
  "destroy c =
     (case config c of
        None \<Rightarrow> (Inl TypeError, c)
      | Some cfg \<Rightarrow>
          (Inr JUndefined,
           (clearTimeout (getProp cfg ''cacheFlushIntervalId'') c)
             \<lparr>data := None, config := None, lruHash := None\<rparr>))"

text \<open>\<^verbatim>\<open>info()\<close>, lines 369-371.\<close>

definition info :: "cache \<Rightarrow> jsval obj" where
  "info c =
     angular_extend (angular_extend [] (case config c of Some cfg \<Rightarrow> cfg | None \<Rightarrow> []))
       [(''size'', JNumber (sizeC c))]"

subsection \<open>The host running the timers\<close>

text \<open>
  A timer that is still pending runs its callback: a timeout is dropped first, an interval
  is re-armed one period later. An exception thrown by a callback is lost.
\<close>

definition fire :: "timer \<Rightarrow> cache \<Rightarrow> cache" where
  "fire t c =
     (if handle t \<in> set (map handle (timers c)) then
        let c1 = (case period t of
                    None \<Rightarrow> c\<lparr>timers := filter (\<lambda>u. handle u \<noteq> handle t) (timers c)\<rparr>
                  | Some d \<Rightarrow>
                      c\<lparr>timers := map (\<lambda>u. if handle u = handle t then u\<lparr>due := due u + d\<rparr>
                                            else u) (timers c)\<rparr>)
        in (case action t of Expire k \<Rightarrow> snd (remove k c1) | Flush \<Rightarrow> flush c1)
      else c)"

text \<open>One millisecond passes: the clock advances and the timers that are due fire, in
  the order they were set.\<close>

definition tick :: "cache \<Rightarrow> cache" where
  "tick c =
     (let c1 = c\<lparr>now := now c + 1\<rparr>
      in fold fire (filter (\<lambda>t. due t \<le> now c1) (timers c1)) c1)"

text \<open>A history of a cache: calls by its user and the passing of time.\<close>

datatype event = Put jsval jsval jsval | Get jsval | Remove jsval | RemoveAll | Wait nat

fun step :: "event \<Rightarrow> cache \<Rightarrow> cache" where
  "step (Put k v maxAge) c = snd (put k v maxAge c)"
| "step (Get k) c = snd (get k c)"
| "step (Remove k) c = snd (remove k c)"
| "step RemoveAll c = snd (removeAll c)"
| "step (Wait ms) c = (tick ^^ ms) c"

definition run :: "event list \<Rightarrow> cache \<Rightarrow> cache" where
  "run es c = fold step es c"

section \<open>The LRU list as a list\<close>

text \<open>
  The object a link points to, if any: \<^verbatim>\<open>null\<close> and \<^verbatim>\<open>undefined\<close> both point
  to none.
\<close>

fun target :: "ref \<Rightarrow> addr option" where
  "target (Obj a) = Some a"
| "target r = None"

definition nxt :: "lruEntry list \<Rightarrow> addr \<Rightarrow> addr option" where
  "nxt h a = target (n (h ! a))"

definition prv :: "lruEntry list \<Rightarrow> addr \<Rightarrow> addr option" where
  "prv h a = target (p (h ! a))"

text \<open>
  A doubly linked segment: the entries \<open>as\<close>, from the stale side to the fresh side, each
  linked by \<open>N\<close> to the one after it and by \<open>P\<close> to the one before it; the first is linked
  back to \<open>u\<close> and the last is linked on to \<open>w\<close>.
\<close>

fun dseg :: "(addr \<Rightarrow> addr option) \<Rightarrow> (addr \<Rightarrow> addr option) \<Rightarrow> addr option \<Rightarrow> addr list
    \<Rightarrow> addr option \<Rightarrow> bool" where
  "dseg N P u [] w = True"
| "dseg N P u (a # as) w =
     (P a = u \<and> N a = (case as of [] \<Rightarrow> w | b # bs \<Rightarrow> Some b) \<and> dseg N P (Some a) as w)"

text \<open>
  The LRU list of a cache is \<open>as\<close>, stale end first: the entries are distinct objects of
  the store, doubly linked with no link out of the list, \<^verbatim>\<open>staleEnd\<close> is the first
  and \<^verbatim>\<open>freshEnd\<close> the last.
\<close>

definition lru_list :: "cache \<Rightarrow> addr list \<Rightarrow> bool" where
  "lru_list c as \<longleftrightarrow>
     distinct as \<and> list_all (\<lambda>a. a < length (heap c)) as
     \<and> dseg (nxt (heap c)) (prv (heap c)) None as None
     \<and> target (staleEnd c) = (case as of [] \<Rightarrow> None | a # bs \<Rightarrow> Some a)
     \<and> target (freshEnd c) = (if as = [] then None else Some (last as))"

text \<open>The list read off the store: from \<^verbatim>\<open>staleEnd\<close> along the \<^verbatim>\<open>n\<close> links, for
  at most \<open>fuel\<close> entries.\<close>

fun walk :: "lruEntry list \<Rightarrow> nat \<Rightarrow> ref \<Rightarrow> addr list" where
  "walk h 0 r = []"
| "walk h (Suc fuel) r =
     (case r of Obj a \<Rightarrow> if a < length h then a # walk h fuel (n (h ! a)) else [] | _ \<Rightarrow> [])"

definition keyAt :: "cache \<Rightarrow> addr \<Rightarrow> string" where
  "keyAt c a = toProp (key (heap c ! a))"

text \<open>The keys of the LRU list, least recently used first.\<close>

definition lruKeys :: "cache \<Rightarrow> string list" where
  "lruKeys c = map (keyAt c) (walk (heap c) (length (heap c)) (staleEnd c))"

text \<open>The keys that hold a value: the properties of \<^verbatim>\<open>data\<close>.\<close>

definition storedKeys :: "cache \<Rightarrow> string list" where
  "storedKeys c = (case data c of Some d \<Rightarrow> map fst d | None \<Rightarrow> [])"

section \<open>Example caches\<close>

text \<open>\<^verbatim>\<open>$advancedCacheFactory('myCache')\<close>: no options.\<close>

definition plainCache :: cache where
  "plainCache = projr (AdvancedCache 0 (JString ''myCache'') [])"

text \<open>\<^verbatim>\<open>$advancedCacheFactory('myTimeLimitedCache', {capacity: 5, maxAge: 10})\<close>.\<close>

definition agedCache :: cache where
  "agedCache = projr (AdvancedCache 0 (JString ''myTimeLimitedCache'')
                        [(''capacity'', JNumber 5), (''maxAge'', JNumber 10)])"

text \<open>\<^verbatim>\<open>$advancedCacheFactory('myIntervalCache', {capacity: 1, cacheFlushInterval: 10})\<close>.\<close>

definition intervalCache :: cache where
  "intervalCache = projr (AdvancedCache 0 (JString ''myIntervalCache'')
                            [(''capacity'', JNumber 1), (''cacheFlushInterval'', JNumber 10)])"

text \<open>\<^verbatim>\<open>$advancedCacheFactory('myLRUCache', {capacity: 2})\<close>.\<close>

definition lruCache :: cache where
  "lruCache = projr (AdvancedCache 0 (JString ''myLRUCache'') [(''capacity'', JNumber 2)])"

text \<open>\<^verbatim>\<open>$advancedCacheFactory('mySmallCache', {capacity: 1})\<close>.\<close>

definition smallCache :: cache where
  "smallCache = projr (AdvancedCache 0 (JString ''mySmallCache'') [(''capacity'', JNumber 1)])"

text \<open>\<open>a\<close>, then \<open>b\<close>, put into a cache with no options.\<close>

definition twoKeys :: cache where
  "twoKeys = run [Put (JString ''a'') (JNumber 1) JUndefined,
                  Put (JString ''b'') (JNumber 2) JUndefined] plainCache"

section \<open>Evaluation\<close>

lemmas cache_defs =
  AdvancedCache_def put_def lruEntryFor_def lruHashAt_def inheritedObj_def protoNames_def
  storeValue_def armExpiry_def enforceCapacity_def
  get_def remove_def unlink_def removeAll_def destroy_def info_def
  refresh_def link_def set_n_def set_p_def flush_def fire_def tick_def run_def
  setTimeout_def setInterval_def clearTimeout_def delayOf_def
  validateCapacity_def validateMaxAge_def validateCacheFlushInterval_def
  getProp_def angular_extend_def js_less_def MAX_VALUE_def Let_def

lemma plainCache_created: "AdvancedCache 0 (JString ''myCache'') [] = Inr plainCache"
  by (simp add: plainCache_def cache_defs)

lemma agedCache_created:
  "AdvancedCache 0 (JString ''myTimeLimitedCache'')
     [(''capacity'', JNumber 5), (''maxAge'', JNumber 10)] = Inr agedCache"
  by (simp add: agedCache_def cache_defs)

lemma intervalCache_created:
  "AdvancedCache 0 (JString ''myIntervalCache'')
     [(''capacity'', JNumber 1), (''cacheFlushInterval'', JNumber 10)] = Inr intervalCache"
  by (simp add: intervalCache_def cache_defs)

lemma lruCache_created:
  "AdvancedCache 0 (JString ''myLRUCache'') [(''capacity'', JNumber 2)] = Inr lruCache"
  by (simp add: lruCache_def cache_defs)

lemma smallCache_created:
  "AdvancedCache 0 (JString ''mySmallCache'') [(''capacity'', JNumber 1)] = Inr smallCache"
  by (simp add: smallCache_def cache_defs)

text \<open>The scenario of the documentation: with capacity 2, after \<open>a\<close>, \<open>b\<close>, \<open>c\<close> are
  put, \<open>a\<close> is gone; after \<open>b\<close> is read and \<open>d\<close> is put, \<open>c\<close> is gone.\<close>

lemma lru_scenario:
  "map (\<lambda>k. fst (get (JString k)
          (run [Put (JString ''a'') (JNumber 1) JUndefined,
                Put (JString ''b'') (JNumber 2) JUndefined,
                Put (JString ''c'') (JNumber 3) JUndefined] lruCache))) [''a'', ''b'', ''c'']
     = [Inr JUndefined, Inr (JNumber 2), Inr (JNumber 3)]"
  "map (\<lambda>k. fst (get (JString k)
          (run [Put (JString ''a'') (JNumber 1) JUndefined,
                Put (JString ''b'') (JNumber 2) JUndefined,
                Put (JString ''c'') (JNumber 3) JUndefined,
                Get (JString ''b''),
                Put (JString ''d'') (JNumber 4) JUndefined] lruCache))) [''c'', ''b'', ''d'']
     = [Inr JUndefined, Inr (JNumber 2), Inr (JNumber 4)]"
  by (simp_all add: lruCache_def cache_defs)

text \<open>An inherited name on a cache with nothing in it: \<^verbatim>\<open>get('toString')\<close> returns
  \<^verbatim>\<open>undefined\<close> and leaves the inherited function as both ends of the LRU list;
  \<^verbatim>\<open>remove('toString')\<close> leaves \<^verbatim>\<open>size\<close> at -1; \<^verbatim>\<open>put('toString', 0)\<close>
  leaves \<^verbatim>\<open>size\<close> at 0 and \<^verbatim>\<open>lruHash\<close> empty.\<close>

lemma inherited_name_scenario:
  "fst (get (JString ''toString'') plainCache) = Inr JUndefined"
  "staleEnd (snd (get (JString ''toString'') plainCache)) = Obj 0"
  "freshEnd (snd (get (JString ''toString'') plainCache)) = Obj 0"
  "key (heap (snd (get (JString ''toString'') plainCache)) ! 0) = JUndefined"
  "sizeC (snd (remove (JString ''toString'') plainCache)) = - 1"
  "fst (put (JString ''toString'') (JNumber 0) JUndefined plainCache) = Inr (JNumber 0)"
  "sizeC (snd (put (JString ''toString'') (JNumber 0) JUndefined plainCache)) = 0"
  "lruHash (snd (put (JString ''toString'') (JNumber 0) JUndefined plainCache)) = Some []"
  "fst (get (JString ''toString'')
          (snd (put (JString ''toString'') (JNumber 0) JUndefined plainCache))) = Inr (JNumber 0)"
  by (simp_all add: plainCache_def cache_defs)

section \<open>What the operations leave alone\<close>

text \<open>No operation but \<^verbatim>\<open>destroy\<close> assigns \<^verbatim>\<open>config\<close>.\<close>

lemma config_clearTimeout [simp]: "config (clearTimeout v c) = config c"
  by (simp add: clearTimeout_def split: jsval.splits)

lemma config_refresh [simp]: "config (refresh e c) = config c"
  by (simp add: refresh_def Let_def)

lemma config_unlink [simp]: "config (unlink e c) = config c"
  by (simp add: unlink_def Let_def)

lemma config_inheritedObj: "inheritedObj k c = Some (e, c0) \<Longrightarrow> config c0 = config c"
  by (auto simp: inheritedObj_def split: if_splits option.splits)

lemma config_lruHashAt [simp]: "lruHashAt lh k c = Some (e, c0) \<Longrightarrow> config c0 = config c"
  by (auto simp: lruHashAt_def config_inheritedObj split: option.splits)

lemma config_remove [simp]: "config (snd (remove k c)) = config c"
  by (auto simp: remove_def Let_def split: option.splits)

lemma config_lruEntryFor [simp]: "config (snd (lruEntryFor k lh c)) = config c"
  by (auto simp: lruEntryFor_def split: option.splits)

lemma config_storeValue [simp]: "config (storeValue k v d c) = config c"
  by (simp add: storeValue_def Let_def)

lemma config_armExpiry [simp]: "config (armExpiry k m cfg it c) = config c"
  by (simp add: armExpiry_def Let_def setTimeout_def split: prod.splits)

lemma config_enforceCapacity [simp]: "config (snd (enforceCapacity v cfg c)) = config c"
  by (simp add: enforceCapacity_def case_prod_beta split: ref.splits sum.splits)

lemma config_put [simp]: "config (snd (put k v m c)) = config c"
  by (simp add: put_def Let_def case_prod_beta split: option.splits)

lemma config_get [simp]: "config (snd (get k c)) = config c"
  by (auto simp: get_def Let_def split: option.splits)

lemma config_removeAll [simp]: "config (snd (removeAll c)) = config c"
  by (simp add: removeAll_def)

lemma config_fold_clearTimeout [simp]:
  "config (fold (\<lambda>(k, it). clearTimeout (timeoutId it)) d c) = config c"
  by (induction d arbitrary: c) auto

lemma config_flush [simp]: "config (flush c) = config c"
  by (simp add: flush_def Let_def split: option.splits)

lemma config_fire [simp]: "config (fire t c) = config c"
  by (simp add: fire_def Let_def split: option.splits callback.splits)

lemma config_fold_fire [simp]: "config (fold fire ts c) = config c"
  by (induction ts arbitrary: c) auto

lemma config_tick [simp]: "config (tick c) = config c"
  by (simp add: tick_def Let_def)

lemma config_ticks [simp]: "config ((tick ^^ k) c) = config c"
  by (induction k) auto

lemma config_step [simp]: "config (step e c) = config c"
  by (cases e) auto

lemma config_run [simp]: "config (run es c) = config c"
  unfolding run_def by (induction es arbitrary: c) auto

text \<open>Line 220 of \<^verbatim>\<open>put\<close> assigns \<^verbatim>\<open>lruHash\<close> and adds to the store; it
  leaves the objects of the store, and the rest of the cache, as they are.\<close>

lemma lruEntryFor_heap:
  "take (length (heap c)) (heap (snd (lruEntryFor k lh c))) = heap c"
  by (auto simp: lruEntryFor_def lruHashAt_def inheritedObj_def split: option.splits)

lemma lruEntryFor_others:
  "data (snd (lruEntryFor k lh c)) = data c"
  "sizeC (snd (lruEntryFor k lh c)) = sizeC c"
  "freshEnd (snd (lruEntryFor k lh c)) = freshEnd c"
  "staleEnd (snd (lruEntryFor k lh c)) = staleEnd c"
  "timers (snd (lruEntryFor k lh c)) = timers c"
  by (auto simp: lruEntryFor_def lruHashAt_def inheritedObj_def split: option.splits)

text \<open>An object lists each property once; \<^verbatim>\<open>angular.extend\<close> of such objects is the
  override of finite maps.\<close>

lemma map_of_angular_extend:
  "distinct (map fst src) \<Longrightarrow> map_of (angular_extend dst src) = map_of dst ++ map_of src"
  unfolding angular_extend_def
proof (induction src arbitrary: dst)
  case Nil
  show ?case by simp
next
  case (Cons a src)
  obtain k v where a: "a = (k, v)" by (cases a)
  from Cons.prems have k: "k \<notin> dom (map_of src)" and d: "distinct (map fst src)"
    by (auto simp: a dom_map_of_conv_image_fst)
  show ?case
    using k by (auto simp: a Cons.IH [OF d] update_conv' fun_eq_iff map_add_def domIff
        split: option.splits)
qed

lemma distinct_angular_extend:
  "distinct (map fst dst) \<Longrightarrow> distinct (map fst (angular_extend dst src))"
  unfolding angular_extend_def
  by (induction src arbitrary: dst) (auto simp: distinct_update)

text \<open>The \<^verbatim>\<open>config\<close> of a cache that was created.\<close>

lemma created_config:
  assumes "AdvancedCache t cacheId opts = Inr c" and "distinct (map fst opts)"
  shows "\<exists>cfg. config c = Some cfg \<and> distinct (map fst cfg) \<and>
     map_of cfg = (\<lambda>k.
       if k = ''cacheFlushIntervalId'' \<and> truthy (getProp opts ''cacheFlushInterval'')
         then Some (JNumber 1)
       else if k = ''capacity'' \<and> \<not> truthy (getProp opts ''capacity'')
         then Some (JNumber MAX_VALUE)
       else if k = ''id'' then Some cacheId
       else map_of opts k)"
  using assms
  by (auto simp: AdvancedCache_def Let_def setInterval_def getProp_def map_of_angular_extend
      update_conv' fun_eq_iff map_add_def distinct_angular_extend distinct_update
      split: if_splits option.splits)

section \<open>The LRU list is a doubly linked list\<close>

subsection \<open>Segments\<close>

lemma dseg_append:
  "dseg N P u (xs @ ys) w \<longleftrightarrow>
     dseg N P u xs (case ys of [] \<Rightarrow> w | y # _ \<Rightarrow> Some y)
     \<and> dseg N P (if xs = [] then u else Some (last xs)) ys w"
  by (induction xs arbitrary: u) (auto split: list.splits)

lemma dseg_frame:
  "\<forall>a\<in>set as. N' a = N a \<and> P' a = P a \<Longrightarrow> dseg N' P' u as w = dseg N P u as w"
  by (induction as arbitrary: u) auto

lemma dseg_last_next_gen:
  "dseg N P u as w \<Longrightarrow> as \<noteq> [] \<Longrightarrow> distinct as \<Longrightarrow>
   (\<forall>x\<in>set as. x \<noteq> last as \<longrightarrow> N' x = N x) \<Longrightarrow> N' (last as) = w' \<Longrightarrow>
   (\<forall>x\<in>set as. P' x = P x) \<Longrightarrow> dseg N' P' u as w'"
proof (induction as arbitrary: u)
  case Nil
  then show ?case by simp
next
  case (Cons a as)
  show ?case
  proof (cases "as = []")
    case True
    with Cons.prems show ?thesis by simp
  next
    case False
    have d: "dseg N P (Some a) as w" "P a = u" "N a = (case as of [] \<Rightarrow> w | b # bs \<Rightarrow> Some b)"
      using Cons.prems(1) by simp_all
    have dist: "distinct as" and ne: "a \<noteq> last as"
      using Cons.prems(3) last_in_set [OF False] by auto
    have ih: "dseg N' P' (Some a) as w'"
    proof (rule Cons.IH [OF d(1) False dist])
      show "\<forall>x\<in>set as. x \<noteq> last as \<longrightarrow> N' x = N x" using Cons.prems(4) False by simp
      show "N' (last as) = w'" using Cons.prems(5) False by simp
      show "\<forall>x\<in>set as. P' x = P x" using Cons.prems(6) by simp
    qed
    have na: "N' a = N a" using Cons.prems(4) ne False by simp
    have pa: "P' a = P a" using Cons.prems(6) by simp
    show ?thesis using ih d(2,3) na pa False by (cases as) auto
  qed
qed

lemma dseg_N_last: "dseg N P u as w \<Longrightarrow> as \<noteq> [] \<Longrightarrow> N (last as) = w"
  by (induction as arbitrary: u) (auto split: list.splits)

lemma walk_dseg:
  "dseg (nxt h) (prv h) u as None \<Longrightarrow> list_all (\<lambda>a. a < length h) as \<Longrightarrow>
   target r = (case as of [] \<Rightarrow> None | a # _ \<Rightarrow> Some a) \<Longrightarrow> length as \<le> fuel \<Longrightarrow>
   walk h fuel r = as"
proof (induction as arbitrary: u r fuel)
  case Nil
  then show ?case by (cases fuel; cases r) auto
next
  case (Cons a as)
  then show ?case
    apply (cases fuel; cases r)
    apply (auto simp: nxt_def split: list.splits)
    done
qed

text \<open>Both boundaries of a segment may be re-linked.\<close>

lemma dseg_change:
  assumes "dseg N P u as w" and "as \<noteq> []" and "distinct as"
    and "\<forall>x\<in>set as. x \<noteq> last as \<longrightarrow> N' x = N x" and "N' (last as) = w'"
    and "\<forall>x\<in>set as. x \<noteq> hd as \<longrightarrow> P' x = P x" and "P' (hd as) = u'"
  shows "dseg N' P' u' as w'"
proof -
  obtain a bs where as: "as = a # bs" using assms(2) by (cases as) auto
  have a: "a \<notin> set bs" using assms(3) as by simp
  let ?P = "\<lambda>x. if x = a then P x else P' x"
  have 1: "dseg N' ?P u as w'"
    by (rule dseg_last_next_gen [OF assms(1,2,3,4,5)]) (use assms(6) as in auto)
  then have "dseg N' ?P (Some a) bs w'" and n: "N' a = (case bs of [] \<Rightarrow> w' | b # _ \<Rightarrow> Some b)"
    unfolding as by simp_all
  moreover have "dseg N' P' (Some a) bs w' = dseg N' ?P (Some a) bs w'"
    by (rule dseg_frame) (use a in auto)
  ultimately show ?thesis using assms(7) unfolding as by simp
qed

lemma length_set_n [simp]: "length (set_n a r h) = length h"
  by (simp add: set_n_def)

lemma length_set_p [simp]: "length (set_p a r h) = length h"
  by (simp add: set_p_def)

lemma length_link [simp]: "length (link r1 r2 h) = length h"
  by (simp add: link_def Let_def split: ref.splits)

lemma key_set_n [simp]: "key (set_n a r h ! x) = key (h ! x)"
  by (cases "a < length h"; cases "x = a") (simp_all add: set_n_def list_update_beyond)

lemma key_set_p [simp]: "key (set_p a r h ! x) = key (h ! x)"
  by (cases "a < length h"; cases "x = a") (simp_all add: set_p_def list_update_beyond)

lemma key_link [simp]: "key (link r1 r2 h ! x) = key (h ! x)"
  by (simp add: link_def Let_def split: ref.splits)

lemma nxt_set_n: "a < length h \<Longrightarrow> nxt (set_n a r h) x = (if x = a then target r else nxt h x)"
  by (simp add: nxt_def set_n_def)

lemma prv_set_n [simp]: "prv (set_n a r h) x = prv h x"
  by (cases "a < length h"; cases "x = a") (simp_all add: prv_def set_n_def list_update_beyond)

lemma nxt_set_p [simp]: "nxt (set_p a r h) x = nxt h x"
  by (cases "a < length h"; cases "x = a") (simp_all add: nxt_def set_p_def list_update_beyond)

lemma prv_set_p: "a < length h \<Longrightarrow> prv (set_p a r h) x = (if x = a then target r else prv h x)"
  by (simp add: prv_def set_p_def)

lemma target_Some [simp]: "target r = Some a \<longleftrightarrow> r = Obj a"
  by (cases r) auto

lemma target_None [simp]: "target r = None \<longleftrightarrow> \<not> isObj r"
  by (cases r) auto

lemma nxt_link:
  "(\<forall>b. r2 = Obj b \<longrightarrow> b < length h) \<Longrightarrow>
   nxt (link r1 r2 h) x = (if r1 \<noteq> r2 \<and> r2 = Obj x then target r1 else nxt h x)"
  by (auto simp: link_def Let_def nxt_set_n split: ref.splits)

lemma prv_link:
  "(\<forall>a. r1 = Obj a \<longrightarrow> a < length h) \<Longrightarrow>
   prv (link r1 r2 h) x = (if r1 \<noteq> r2 \<and> r1 = Obj x then target r2 else prv h x)"
  by (auto simp: link_def Let_def prv_set_p split: ref.splits)

lemma refresh_same: "freshEnd c = Obj a \<Longrightarrow> refresh a c = c"
  by (simp add: refresh_def)

lemma refresh_fields:
  assumes "freshEnd c \<noteq> Obj a" and "a < length (heap c)"
    and "\<forall>b. p (heap c ! a) = Obj b \<longrightarrow> b < length (heap c)"
    and "\<forall>b. n (heap c ! a) = Obj b \<longrightarrow> b < length (heap c)"
    and "\<forall>b. freshEnd c = Obj b \<longrightarrow> b < length (heap c)"
  shows "length (heap (refresh a c)) = length (heap c)"
    and "key (heap (refresh a c) ! x) = key (heap c ! x)"
    and "freshEnd (refresh a c) = Obj a"
    and "staleEnd (refresh a c) =
          (if \<not> isObj (staleEnd c) then Obj a
           else if staleEnd c = Obj a then n (heap c ! a) else staleEnd c)"
    and "nxt (heap (refresh a c)) x =
          (if x = a then None
           else if freshEnd c = Obj x then Some a
           else if n (heap c ! a) \<noteq> p (heap c ! a) \<and> p (heap c ! a) = Obj x
             then nxt (heap c) a
           else nxt (heap c) x)"
    and "prv (heap (refresh a c)) x =
          (if x = a then target (freshEnd c)
           else if n (heap c ! a) \<noteq> p (heap c ! a) \<and> n (heap c ! a) = Obj x
             then prv (heap c) a
           else prv (heap c) x)"
  using assms
  by (auto simp: refresh_def Let_def nxt_set_n prv_link nxt_link nxt_def [of "heap c"]
      prv_def [of "heap c"])

lemma refresh_others [simp]:
  "config (refresh a c) = config c"
  "data (refresh a c) = data c" "lruHash (refresh a c) = lruHash c"
  "sizeC (refresh a c) = sizeC c" "timers (refresh a c) = timers c"
  "nextHandle (refresh a c) = nextHandle c" "now (refresh a c) = now c"
  by (simp_all add: refresh_def Let_def)

lemma dseg_P_hd: "dseg N P u as w \<Longrightarrow> as \<noteq> [] \<Longrightarrow> P (hd as) = u"
  by (cases as) auto

lemma remove1_mid: "a \<notin> set xs \<Longrightarrow> remove1 a (xs @ a # ys) = xs @ ys"
  by (induction xs) auto

lemma dseg_P_in:
  "dseg N P u as w \<Longrightarrow> a \<in> set as \<Longrightarrow> P a = Some b \<Longrightarrow> b \<in> set as \<or> u = Some b"
proof (induction as arbitrary: u)
  case Nil
  then show ?case by simp
next
  case (Cons x xs)
  show ?case
  proof (cases "a = x")
    case True
    with Cons.prems show ?thesis by auto
  next
    case False
    with Cons.prems have "a \<in> set xs" "dseg N P (Some x) xs w" by auto
    from Cons.IH [OF this(2,1) Cons.prems(3)] show ?thesis by auto
  qed
qed

lemma remove1_last: "distinct as \<Longrightarrow> as \<noteq> [] \<Longrightarrow> remove1 (last as) as @ [last as] = as"
proof -
  assume d: "distinct as" and ne: "as \<noteq> []"
  have as: "as = butlast as @ [last as]" using ne by simp
  have "last as \<notin> set (butlast as)" using d as by (metis distinct_butlast not_distinct_conv_prefix append.assoc append_butlast_last_id distinct.simps(2) distinct_append disjoint_iff list.set_intros(1) self_append_conv2)
  then have "remove1 (last as) (butlast as @ [last as]) = butlast as"
    by (simp add: remove1_append)
  with as show ?thesis by metis
qed

lemma dseg_N_in:
  "dseg N P u as w \<Longrightarrow> a \<in> set as \<Longrightarrow> N a = Some b \<Longrightarrow> b \<in> set as \<or> w = Some b"
proof (induction as arbitrary: u)
  case Nil
  then show ?case by simp
next
  case (Cons x xs)
  show ?case
  proof (cases "a = x")
    case True
    with Cons.prems show ?thesis by (cases xs) auto
  next
    case False
    with Cons.prems have "a \<in> set xs" "dseg N P (Some x) xs w" by auto
    from Cons.IH [OF this(2,1) Cons.prems(3)] show ?thesis by auto
  qed
qed

lemma dseg_move_1:
  assumes D1: "dseg N P None xs (Some a)" and xne: "xs \<noteq> []"
    and dist: "distinct (xs @ a # ys)" and ys: "ys \<noteq> []"
    and N': "\<And>x. N' x = (if x = a then None else if x = last ys then Some a
                else if xs \<noteq> [] \<and> x = last xs then Some (hd ys) else N x)"
    and P': "\<And>x. P' x = (if x = a then Some (last ys) else if x = hd ys then P a else P x)"
  shows "dseg N' P' None xs (Some (hd ys))"
proof -
  from dist have axs: "a \<notin> set xs" "a \<notin> set ys" "distinct xs" "distinct ys"
      "set xs \<inter> set ys = {}" by auto
  have hy: "hd ys \<in> set ys" and ly: "last ys \<in> set ys" using ys by auto
  have lx: "last xs \<in> set xs" "hd xs \<in> set xs" using xne by auto
  have nin: "x \<in> set xs \<Longrightarrow> x \<noteq> a \<and> x \<noteq> last ys \<and> x \<noteq> hd ys" for x
    using axs hy ly by auto
  show ?thesis
  proof (rule dseg_change [OF D1 xne axs(3)])
    show "\<forall>x\<in>set xs. x \<noteq> last xs \<longrightarrow> N' x = N x"
      using nin by (simp add: N')
    show "N' (last xs) = Some (hd ys)"
      using nin [OF lx(1)] xne by (simp add: N')
    show "\<forall>x\<in>set xs. x \<noteq> hd xs \<longrightarrow> P' x = P x"
      using nin by (simp add: P')
    show "P' (hd xs) = None"
      using nin [OF lx(2)] dseg_P_hd [OF D1 xne] by (simp add: P')
  qed
qed

lemma dseg_move_2:
  assumes D2: "dseg N P (Some a) ys None" and Pa: "P a = u"
    and dist: "distinct (xs @ a # ys)" and ys: "ys \<noteq> []"
    and N': "\<And>x. N' x = (if x = a then None else if x = last ys then Some a
                else if xs \<noteq> [] \<and> x = last xs then Some (hd ys) else N x)"
    and P': "\<And>x. P' x = (if x = a then Some (last ys) else if x = hd ys then P a else P x)"
  shows "dseg N' P' u ys (Some a)"
proof -
  from dist have axs: "a \<notin> set xs" "a \<notin> set ys" "distinct xs" "distinct ys"
      "set xs \<inter> set ys = {}" by auto
  have hy: "hd ys \<in> set ys" and ly: "last ys \<in> set ys" using ys by auto
  have nin: "x \<in> set ys \<Longrightarrow> x \<noteq> a \<and> (xs \<noteq> [] \<longrightarrow> x \<noteq> last xs)" for x
    using axs(2,5) last_in_set [of xs] by blast
  show ?thesis
  proof (rule dseg_change [OF D2 ys axs(4)])
    show "\<forall>x\<in>set ys. x \<noteq> last ys \<longrightarrow> N' x = N x"
      using nin by (auto simp: N')
    show "N' (last ys) = Some a"
      using nin [OF ly] by (simp add: N')
    show "\<forall>x\<in>set ys. x \<noteq> hd ys \<longrightarrow> P' x = P x"
      using nin by (simp add: P')
    show "P' (hd ys) = u"
      using nin [OF hy] Pa by (simp add: P')
  qed
qed

text \<open>Unlinking \<open>a\<close> from inside the list and linking it after the last entry.\<close>

lemma dseg_move_to_end:
  assumes D: "dseg N P None (xs @ a # ys) None"
    and dist: "distinct (xs @ a # ys)" and ys: "ys \<noteq> []"
    and N': "\<And>x. N' x = (if x = a then None else if x = last ys then Some a
                else if xs \<noteq> [] \<and> x = last xs then Some (hd ys) else N x)"
    and P': "\<And>x. P' x = (if x = a then Some (last ys) else if x = hd ys then P a else P x)"
  shows "dseg N' P' None (xs @ ys @ [a]) None"
proof -
  from D ys have D1: "dseg N P None xs (Some a)"
    and Pa: "P a = (if xs = [] then None else Some (last xs))"
    and D2: "dseg N P (Some a) ys None"
    by (auto simp: dseg_append split: list.splits)
  have 1: "dseg N' P' None xs (Some (hd ys))"
  proof (cases "xs = []")
    case True
    then show ?thesis by simp
  next
    case False
    show ?thesis by (rule dseg_move_1 [OF D1 False dist ys N' P'])
  qed
  have 2: "dseg N' P' (if xs = [] then None else Some (last xs)) ys (Some a)"
    by (rule dseg_move_2 [OF D2 Pa dist ys N' P'])
  have 3: "dseg N' P' (Some (last ys)) [a] None"
    by (simp add: N' P')
  have 4: "dseg N' P' (if xs = [] then None else Some (last xs)) (ys @ [a]) None"
    using 2 3 ys by (simp add: dseg_append)
  have 5: "(case ys @ [a] of [] \<Rightarrow> None | y # zs \<Rightarrow> Some y) = Some (hd ys)"
    using ys by (cases ys) auto
  show ?thesis
    by (subst dseg_append) (simp only: 1 4 5 simp_thms)
qed

lemma lru_listD:
  assumes "lru_list c as"
  shows "distinct as" and "\<forall>x\<in>set as. x < length (heap c)"
    and "dseg (nxt (heap c)) (prv (heap c)) None as None"
    and "target (staleEnd c) = (case as of [] \<Rightarrow> None | x # bs \<Rightarrow> Some x)"
    and "target (freshEnd c) = (if as = [] then None else Some (last as))"
  using assms by (auto simp: lru_list_def list_all_iff)

lemma lru_listI:
  assumes "distinct as" and "\<forall>x\<in>set as. x < length (heap c)"
    and "dseg (nxt (heap c)) (prv (heap c)) None as None"
    and "target (staleEnd c) = (case as of [] \<Rightarrow> None | x # bs \<Rightarrow> Some x)"
    and "target (freshEnd c) = (if as = [] then None else Some (last as))"
  shows "lru_list c as"
  using assms by (auto simp: lru_list_def list_all_iff)

lemma refresh_lru_list_present:
  assumes L: "lru_list c as" and mem: "a \<in> set as"
  shows "lru_list (refresh a c) (remove1 a as @ [a])"
proof -
  let ?h = "heap c"
  let ?N = "nxt ?h"
  let ?P = "prv ?h"
  note dist = lru_listD(1) [OF L] and val = lru_listD(2) [OF L] and D = lru_listD(3) [OF L]
    and S = lru_listD(4) [OF L] and F = lru_listD(5) [OF L]
  from mem have ne: "as \<noteq> []" by auto
  show ?thesis
  proof (cases "freshEnd c = Obj a")
    case True
    with F ne have "a = last as" by simp
    with dist ne have "remove1 a as @ [a] = as" by (simp add: remove1_last)
    with L True show ?thesis by (simp add: refresh_same)
  next
    case False
    from mem obtain xs ys where as: "as = xs @ a # ys"
      by (auto simp: in_set_conv_decomp)
    have ys: "ys \<noteq> []"
    proof
      assume "ys = []"
      with F as have "target (freshEnd c) = Some a" by simp
      with False show False by simp
    qed
    from dist have axs: "a \<notin> set xs" "a \<notin> set ys" "distinct xs" "distinct ys"
      "set xs \<inter> set ys = {}" unfolding as by auto
    from D have Pa: "?P a = (if xs = [] then None else Some (last xs))"
      and Na: "?N a = Some (hd ys)"
      using ys unfolding as by (auto simp: dseg_append split: list.splits)
    have fr: "freshEnd c = Obj (last ys)" using F ys unfolding as by simp
    have hy: "hd ys \<in> set ys" and ly: "last ys \<in> set ys" using ys by auto
    have a: "a < length ?h" using val mem by simp
    have vf: "\<forall>b. freshEnd c = Obj b \<longrightarrow> b < length ?h"
      using fr val ly unfolding as by simp
    have vn: "\<forall>b. n (?h ! a) = Obj b \<longrightarrow> b < length ?h"
      using Na val hy unfolding as by (simp add: nxt_def)
    have vp: "\<forall>b. p (?h ! a) = Obj b \<longrightarrow> b < length ?h"
    proof (cases "xs = []")
      case True
      with Pa show ?thesis by (auto simp: prv_def)
    next
      case False
      then have "last xs \<in> set xs" by simp
      with Pa False val show ?thesis unfolding as by (simp add: prv_def)
    qed
    have neq: "n (?h ! a) \<noteq> p (?h ! a)"
    proof
      assume e: "n (?h ! a) = p (?h ! a)"
      then have "?N a = ?P a" by (simp add: nxt_def prv_def)
      with Na Pa have "xs \<noteq> []" "hd ys = last xs" by (auto split: if_splits)
      then have "hd ys \<in> set xs" by simp
      with hy axs(5) show False by blast
    qed
    note R = refresh_fields [OF False a vp vn vf]
    define N' where "N' = nxt (heap (refresh a c))"
    define P' where "P' = prv (heap (refresh a c))"
    have pobj: "p (?h ! a) = Obj x \<longleftrightarrow> xs \<noteq> [] \<and> x = last xs" for x
      using Pa by (auto simp: prv_def split: if_splits)
    have nobj: "n (?h ! a) = Obj x \<longleftrightarrow> x = hd ys" for x
      using Na by (auto simp: nxt_def)
    have N': "N' x = (if x = a then None else if x = last ys then Some a
                else if xs \<noteq> [] \<and> x = last xs then Some (hd ys) else ?N x)" for x
      unfolding N'_def R(5) by (simp add: fr neq pobj Na)
    have P': "P' x = (if x = a then Some (last ys) else if x = hd ys then ?P a else ?P x)" for x
      unfolding P'_def R(6) by (simp add: fr neq nobj)
    have dnew: "dseg N' P' None (xs @ ys @ [a]) None"
      by (rule dseg_move_to_end [OF D [unfolded as] dist [unfolded as] ys N' P'])
    have rm: "remove1 a as @ [a] = xs @ ys @ [a]"
      unfolding as using axs(1) by (simp add: remove1_mid)
    have st: "target (staleEnd (refresh a c)) = Some (hd (xs @ ys @ [a]))"
    proof (cases "xs = []")
      case True
      with S as have "staleEnd c = Obj a" by simp
      then show ?thesis using True Na ys unfolding R(4) by (simp add: nxt_def)
    next
      case xne: False
      with S as have "staleEnd c = Obj (hd xs)" by (cases xs) auto
      moreover have "hd xs \<noteq> a" using axs(1) xne by auto
      ultimately show ?thesis using xne unfolding R(4) by simp
    qed
    show ?thesis
      unfolding rm
    proof (rule lru_listI)
      show "distinct (xs @ ys @ [a])" using axs by auto
      show "\<forall>x\<in>set (xs @ ys @ [a]). x < length (heap (refresh a c))"
        using val a unfolding R(1) as by auto
      show "dseg (nxt (heap (refresh a c))) (prv (heap (refresh a c))) None (xs @ ys @ [a]) None"
        using dnew unfolding N'_def P'_def .
      show "target (staleEnd (refresh a c)) =
          (case xs @ ys @ [a] of [] \<Rightarrow> None | x # bs \<Rightarrow> Some x)"
        unfolding st by (cases "xs @ ys @ [a]") auto
      show "target (freshEnd (refresh a c)) =
          (if xs @ ys @ [a] = [] then None else Some (last (xs @ ys @ [a])))"
        unfolding R(3) by simp
    qed
  qed
qed

subsection \<open>The list read off the store\<close>

lemma distinct_length_le:
  assumes "distinct as" and "\<forall>x\<in>set as. x < m"
  shows "length as \<le> m"
proof -
  have "set as \<subseteq> {..<m}" using assms(2) by auto
  then have "card (set as) \<le> card {..<m}" by (intro card_mono) auto
  with assms(1) show ?thesis by (simp add: distinct_card)
qed

lemma lru_list_walk:
  assumes L: "lru_list c as"
  shows "walk (heap c) (length (heap c)) (staleEnd c) = as"
  by (rule walk_dseg [OF lru_listD(3) [OF L]])
     (use lru_listD [OF L] distinct_length_le [of as "length (heap c)"] in
       \<open>auto simp: list_all_iff\<close>)

lemma lru_list_keys: "lru_list c as \<Longrightarrow> lruKeys c = map (keyAt c) as"
  by (simp add: lruKeys_def lru_list_walk)

section \<open>After \<^verbatim>\<open>destroy\<close>\<close>

text \<open>
  Once \<^verbatim>\<open>destroy()\<close> has returned, \<^verbatim>\<open>put\<close>, \<^verbatim>\<open>get\<close> and \<^verbatim>\<open>remove\<close>
  called next throw a \<^verbatim>\<open>TypeError\<close> (they read a property of \<^verbatim>\<open>lruHash\<close>, which
  is \<^verbatim>\<open>null\<close>) and change nothing; \<^verbatim>\<open>removeAll\<close> and \<^verbatim>\<open>info\<close> read nothing
  that \<^verbatim>\<open>destroy\<close> released, and return.
\<close>

lemma after_destroy:
  assumes "fst (destroy c) = Inr JUndefined"
  shows "put k v m (snd (destroy c)) = (Inl TypeError, snd (destroy c))
    \<and> get k (snd (destroy c)) = (Inl TypeError, snd (destroy c))
    \<and> remove k (snd (destroy c)) = (Inl TypeError, snd (destroy c))
    \<and> fst (removeAll (snd (destroy c))) = Inr JUndefined
    \<and> data (snd (removeAll (snd (destroy c)))) = Some []
    \<and> lruHash (snd (removeAll (snd (destroy c)))) = Some []
    \<and> info (snd (destroy c)) = [(''size'', JNumber (sizeC c))]"
  using assms
  by (auto simp: destroy_def put_def get_def remove_def removeAll_def info_def angular_extend_def
      clearTimeout_def split: option.splits jsval.splits)

section \<open>Claims\<close>

text \<open>
  C1 (the code does otherwise). The claim: over every sequence of \<^verbatim>\<open>put\<close> calls on
  a cache with a positive capacity, \<^verbatim>\<open>size\<close> never exceeds the capacity, and a
  \<^verbatim>\<open>put\<close> that makes \<^verbatim>\<open>size\<close> exceed it removes exactly one entry, the one
  of the key at the stale end. The code reads \<^verbatim>\<open>lruHash[key]\<close> and
  \<^verbatim>\<open>key in data\<close> through \<^verbatim>\<open>Object.prototype\<close> (lines 220, 237): for the key
  \<open>toString\<close> the inherited function is taken as the LRU entry, and \<^verbatim>\<open>size\<close> does
  not count the key. With capacity 2, after \<open>toString\<close>, \<open>a\<close>, \<open>b\<close>, \<open>c\<close> are put, the
  stale end is that function, which has no \<^verbatim>\<open>key\<close>, so \<^verbatim>\<open>remove(staleEnd.key)\<close>
  (line 255) is \<^verbatim>\<open>remove(undefined)\<close> and removes nothing: the \<^verbatim>\<open>put\<close> of \<open>c\<close>
  returns with \<^verbatim>\<open>size\<close> 3 and four values stored, and the \<^verbatim>\<open>put\<close> of \<open>d\<close>
  leaves \<^verbatim>\<open>size\<close> 4. And \<^verbatim>\<open>put(k, undefined)\<close> links an LRU entry for \<open>k\<close> with
  nothing stored (lines 220-235): with capacity 1, after \<^verbatim>\<open>put('a', undefined)\<close>,
  \<^verbatim>\<open>put('b', 1)\<close>, \<^verbatim>\<open>put('c', 2)\<close>, the last \<^verbatim>\<open>put\<close> has removed the key
  \<open>a\<close>, which held no entry, and \<open>b\<close> and \<open>c\<close> are both stored.
\<close>

theorem capacity_not_enforced:
  "AdvancedCache 0 (JString ''myLRUCache'') [(''capacity'', JNumber 2)] = Inr lruCache
   \<and> fst (put (JString ''c'') (JNumber 3) JUndefined
            (run [Put (JString ''toString'') (JNumber 0) JUndefined,
                  Put (JString ''a'') (JNumber 1) JUndefined,
                  Put (JString ''b'') (JNumber 2) JUndefined] lruCache)) = Inr (JNumber 3)
   \<and> sizeC (run [Put (JString ''toString'') (JNumber 0) JUndefined,
                  Put (JString ''a'') (JNumber 1) JUndefined,
                  Put (JString ''b'') (JNumber 2) JUndefined,
                  Put (JString ''c'') (JNumber 3) JUndefined] lruCache) = 3
   \<and> storedKeys (run [Put (JString ''toString'') (JNumber 0) JUndefined,
                       Put (JString ''a'') (JNumber 1) JUndefined,
                       Put (JString ''b'') (JNumber 2) JUndefined,
                       Put (JString ''c'') (JNumber 3) JUndefined] lruCache)
       = [''toString'', ''a'', ''b'', ''c'']
   \<and> sizeC (run [Put (JString ''toString'') (JNumber 0) JUndefined,
                  Put (JString ''a'') (JNumber 1) JUndefined,
                  Put (JString ''b'') (JNumber 2) JUndefined,
                  Put (JString ''c'') (JNumber 3) JUndefined,
                  Put (JString ''d'') (JNumber 4) JUndefined] lruCache) = 4
   \<and> AdvancedCache 0 (JString ''mySmallCache'') [(''capacity'', JNumber 1)] = Inr smallCache
   \<and> sizeC (run [Put (JString ''a'') JUndefined JUndefined,
                  Put (JString ''b'') (JNumber 1) JUndefined] smallCache) = 1
   \<and> lruKeys (run [Put (JString ''a'') JUndefined JUndefined,
                    Put (JString ''b'') (JNumber 1) JUndefined] smallCache) = [''a'', ''b'']
   \<and> storedKeys (run [Put (JString ''a'') JUndefined JUndefined,
                       Put (JString ''b'') (JNumber 1) JUndefined] smallCache) = [''b'']
   \<and> sizeC (run [Put (JString ''a'') JUndefined JUndefined,
                  Put (JString ''b'') (JNumber 1) JUndefined,
                  Put (JString ''c'') (JNumber 2) JUndefined] smallCache) = 1
   \<and> storedKeys (run [Put (JString ''a'') JUndefined JUndefined,
                       Put (JString ''b'') (JNumber 1) JUndefined,
                       Put (JString ''c'') (JNumber 2) JUndefined] smallCache) = [''b'', ''c'']
   \<and> fst (get (JString ''b'')
            (run [Put (JString ''a'') JUndefined JUndefined,
                  Put (JString ''b'') (JNumber 1) JUndefined,
                  Put (JString ''c'') (JNumber 2) JUndefined] smallCache)) = Inr (JNumber 1)"
  by (simp add: lruCache_def smallCache_def cache_defs storedKeys_def lruKeys_def keyAt_def)

text \<open>
  C2 (the code does otherwise). The claim: a \<^verbatim>\<open>put\<close> that overwrites a key holding an
  armed expiry timer cancels the old timer, so the entry survives past the original
  deadline and expires the new duration after the overwrite. In the code
  \<^verbatim>\<open>data[key]\<close> has just been replaced by \<^verbatim>\<open>{value: value}\<close> when its
  \<^verbatim>\<open>timeoutId\<close> is read (lines 240-247), so \<^verbatim>\<open>clearTimeout\<close> is never called:
  with a max age of 10 ms, \<open>x\<close> put at 0 ms and again at 5 ms, both timers are pending
  after the second \<^verbatim>\<open>put\<close>, and at 10 ms, the original deadline, the first one
  removes the entry.
\<close>

theorem put_overwrite_keeps_old_timer:
  "AdvancedCache 0 (JString ''myTimeLimitedCache'')
     [(''capacity'', JNumber 5), (''maxAge'', JNumber 10)] = Inr agedCache
   \<and> map due (timers (run [Put (JString ''x'') (JNumber 1) JUndefined, Wait 5,
                            Put (JString ''x'') (JNumber 2) JUndefined] agedCache)) = [10, 15]
   \<and> fst (get (JString ''x'')
        (run [Put (JString ''x'') (JNumber 1) JUndefined, Wait 5,
              Put (JString ''x'') (JNumber 2) JUndefined, Wait 4] agedCache)) = Inr (JNumber 2)
   \<and> fst (get (JString ''x'')
        (run [Put (JString ''x'') (JNumber 1) JUndefined, Wait 5,
              Put (JString ''x'') (JNumber 2) JUndefined, Wait 5] agedCache)) = Inr JUndefined"
  by (simp add: agedCache_def cache_defs eval_nat_numeral)

text \<open>
  C3 (the code does otherwise). The claim: whenever an entry is removed, by
  \<^verbatim>\<open>remove\<close>, eviction, expiry or \<^verbatim>\<open>removeAll\<close>, its armed expiry timer is
  cancelled, so no stale callback removes a key that has been put again. Neither
  \<^verbatim>\<open>remove\<close> (lines 299-317) nor \<^verbatim>\<open>removeAll\<close> (lines 333-338) calls
  \<^verbatim>\<open>clearTimeout\<close>; only the flush callback does. With \<open>x\<close> put with a max age of
  10 ms, removed, and put again with no max age, the timer of the first \<^verbatim>\<open>put\<close> is
  still pending after \<^verbatim>\<open>remove\<close> and after \<^verbatim>\<open>removeAll\<close>, and at 10 ms it
  removes the second entry.
\<close>

theorem remove_leaves_timer_armed:
  "AdvancedCache 0 (JString ''myCache'') [] = Inr plainCache
   \<and> map handle (timers (run [Put (JString ''x'') (JNumber 1) (JNumber 10),
                               Remove (JString ''x'')] plainCache)) = [1]
   \<and> map handle (timers (run [Put (JString ''x'') (JNumber 1) (JNumber 10),
                               RemoveAll] plainCache)) = [1]
   \<and> fst (get (JString ''x'')
        (run [Put (JString ''x'') (JNumber 1) (JNumber 10), Remove (JString ''x''),
              Put (JString ''x'') (JNumber 2) JUndefined, Wait 9] plainCache)) = Inr (JNumber 2)
   \<and> fst (get (JString ''x'')
        (run [Put (JString ''x'') (JNumber 1) (JNumber 10), Remove (JString ''x''),
              Put (JString ''x'') (JNumber 2) JUndefined, Wait 10] plainCache)) = Inr JUndefined"
  by (simp add: plainCache_def cache_defs eval_nat_numeral)

text \<open>
  C4 (the code does otherwise). The claim: a firing of the flush interval has the effect
  of \<^verbatim>\<open>removeAll\<close>: afterwards \<^verbatim>\<open>size\<close> is 0 and \<^verbatim>\<open>get\<close> of a key that was
  present returns \<^verbatim>\<open>undefined\<close>. The callback (lines 95-103) does not assign
  \<^verbatim>\<open>size\<close>: after \<open>a\<close> is put and the interval of 10 ms fires, \<^verbatim>\<open>get\<close> returns
  \<^verbatim>\<open>undefined\<close> but \<^verbatim>\<open>size\<close> is still 1, where \<^verbatim>\<open>removeAll\<close> leaves 0.
\<close>

theorem flush_keeps_size:
  "AdvancedCache 0 (JString ''myIntervalCache'')
     [(''capacity'', JNumber 1), (''cacheFlushInterval'', JNumber 10)] = Inr intervalCache
   \<and> sizeC (run [Put (JString ''a'') (JNumber 1) JUndefined, Wait 10] intervalCache) = 1
   \<and> sizeC (run [Put (JString ''a'') (JNumber 1) JUndefined, RemoveAll] intervalCache) = 0
   \<and> fst (get (JString ''a'')
        (run [Put (JString ''a'') (JNumber 1) JUndefined, Wait 10] intervalCache)) = Inr JUndefined"
  by (simp add: intervalCache_def cache_defs eval_nat_numeral)

text \<open>
  C5 (the code does otherwise). The claim: between operations the keys of \<^verbatim>\<open>data\<close>
  are the keys of the LRU list, and \<^verbatim>\<open>size\<close> is the number of entries of
  \<^verbatim>\<open>data\<close>. After the flush interval has fired \<^verbatim>\<open>data\<close> is empty and
  \<^verbatim>\<open>size\<close> is what it was; and \<^verbatim>\<open>put(k, undefined)\<close> for a new key links an
  LRU entry for \<open>k\<close> and stores nothing (lines 220-236).
\<close>

theorem size_and_keys_diverge:
  "AdvancedCache 0 (JString ''myIntervalCache'')
     [(''capacity'', JNumber 1), (''cacheFlushInterval'', JNumber 10)] = Inr intervalCache
   \<and> data (run [Put (JString ''a'') (JNumber 1) JUndefined, Wait 10] intervalCache) = Some []
   \<and> sizeC (run [Put (JString ''a'') (JNumber 1) JUndefined, Wait 10] intervalCache) = 1
   \<and> data (run [Put (JString ''k'') JUndefined JUndefined] intervalCache) = Some []
   \<and> lruHash (run [Put (JString ''k'') JUndefined JUndefined] intervalCache) = Some [(''k'', 0)]
   \<and> staleEnd (run [Put (JString ''k'') JUndefined JUndefined] intervalCache) = Obj 0"
  by (simp add: intervalCache_def cache_defs eval_nat_numeral)

text \<open>
  C8 (the code does otherwise). The claim: \<^verbatim>\<open>get(k)\<close> right after
  \<^verbatim>\<open>put(k, v)\<close> returns \<open>v\<close>, \<^verbatim>\<open>get(k)\<close> after \<^verbatim>\<open>remove(k)\<close> returns
  \<^verbatim>\<open>undefined\<close>, and \<^verbatim>\<open>get\<close> of a key that holds no value returns
  \<^verbatim>\<open>undefined\<close>, also when \<^verbatim>\<open>put(k, undefined)\<close> was the only call for \<open>k\<close>.
  After \<^verbatim>\<open>put(k, undefined)\<close> the key has an LRU entry and no entry in
  \<^verbatim>\<open>data\<close>, and \<^verbatim>\<open>get(k)\<close> reads \<^verbatim>\<open>data[k].value\<close> (line 283): a
  \<^verbatim>\<open>TypeError\<close>. And in a cache of capacity 1 whose flush interval has fired with
  one entry stored, \<^verbatim>\<open>size\<close> is still 1, so that \<^verbatim>\<open>put('b', 2)\<close> counts 2,
  evicts the stale end, which is \<open>b\<close> itself, and returns 2: the \<^verbatim>\<open>get('b')\<close>
  that follows returns \<^verbatim>\<open>undefined\<close>.
\<close>

theorem get_after_put_undefined_throws:
  "AdvancedCache 0 (JString ''myCache'') [] = Inr plainCache
   \<and> fst (put (JString ''k'') JUndefined JUndefined plainCache) = Inr JUndefined
   \<and> fst (get (JString ''k'') (run [Put (JString ''k'') JUndefined JUndefined] plainCache))
       = Inl TypeError
   \<and> fst (put (JString ''b'') (JNumber 2) JUndefined
            (run [Put (JString ''a'') (JNumber 1) JUndefined, Wait 10] intervalCache))
       = Inr (JNumber 2)
   \<and> fst (get (JString ''b'')
            (run [Put (JString ''a'') (JNumber 1) JUndefined, Wait 10,
                  Put (JString ''b'') (JNumber 2) JUndefined] intervalCache))
       = Inr JUndefined"
  by (simp add: plainCache_def intervalCache_def cache_defs eval_nat_numeral)

text \<open>
  C6 (corrected). The claim: a \<^verbatim>\<open>put\<close> whose key is not a string or is empty, or
  whose per-call \<^verbatim>\<open>maxAge\<close> fails validation, raises an error and mutates nothing.
  An empty string is a string: \<^verbatim>\<open>put('', 1)\<close> stores the value and returns it.
\<close>

theorem put_empty_key_accepted:
  "AdvancedCache 0 (JString ''myCache'') [] = Inr plainCache
   \<and> fst (put (JString []) (JNumber 1) JUndefined plainCache) = Inr (JNumber 1)
   \<and> sizeC plainCache = 0
   \<and> sizeC (snd (put (JString []) (JNumber 1) JUndefined plainCache)) = 1
   \<and> fst (get (JString []) (snd (put (JString []) (JNumber 1) JUndefined plainCache)))
       = Inr (JNumber 1)"
  by (simp add: plainCache_def cache_defs)

text \<open>
  C6 as amended: a \<^verbatim>\<open>put\<close> whose key is not a string, or whose per-call
  \<^verbatim>\<open>maxAge\<close> fails validation (it is truthy and is not a number or is negative),
  raises an error, and \<^verbatim>\<open>data\<close>, \<^verbatim>\<open>size\<close>, the two ends of the LRU list, the
  LRU entries that existed before the call, \<^verbatim>\<open>config\<close> and the timers are as before
  the call. (Nothing is said of \<^verbatim>\<open>lruHash\<close>.)
\<close>

theorem put_invalid_raises:
  assumes "\<not> isString k \<or> (truthy m \<and> (\<not> isNumber m \<or> js_less m (JNumber 0)))"
  shows "(\<exists>e. fst (put k v m c) = Inl e)
    \<and> data (snd (put k v m c)) = data c
    \<and> sizeC (snd (put k v m c)) = sizeC c
    \<and> freshEnd (snd (put k v m c)) = freshEnd c
    \<and> staleEnd (snd (put k v m c)) = staleEnd c
    \<and> take (length (heap c)) (heap (snd (put k v m c))) = heap c
    \<and> config (snd (put k v m c)) = config c
    \<and> timers (snd (put k v m c)) = timers c"
proof (cases "lruHash c")
  case None
  then show ?thesis by (simp add: put_def)
next
  case (Some lh)
  have "put k v m c =
      (if \<not> isString k then (Inl (Error ''The key must be a string!''), snd (lruEntryFor k lh c))
       else (Inl (Error (validateMaxAge m)), snd (lruEntryFor k lh c)))"
    using assms by (auto simp: put_def Some case_prod_beta validateMaxAge_def)
  then show ?thesis
    by (simp add: lruEntryFor_others lruEntryFor_heap)
qed

theorem put_invalid_raises_witness:
  "\<not> isString (JNumber 5)
   \<and> (\<exists>e. fst (put (JNumber 5) (JNumber 1) JUndefined plainCache) = Inl e)
   \<and> data (snd (put (JNumber 5) (JNumber 1) JUndefined plainCache)) = data plainCache
   \<and> sizeC (snd (put (JNumber 5) (JNumber 1) JUndefined plainCache)) = sizeC plainCache
   \<and> timers (snd (put (JNumber 5) (JNumber 1) JUndefined plainCache)) = timers plainCache"
  using put_invalid_raises [of "JNumber 5" JUndefined "JNumber 1" plainCache] by simp

text \<open>
  C7 (the code does otherwise). The claim: after \<^verbatim>\<open>destroy()\<close> every operation
  (\<^verbatim>\<open>put\<close>, \<^verbatim>\<open>get\<close>, \<^verbatim>\<open>remove\<close>, \<^verbatim>\<open>removeAll\<close>, \<^verbatim>\<open>info\<close>) is
  rejected with an error, as the documentation of \<^verbatim>\<open>destroy\<close> has it (line 348:
  \<^verbatim>\<open>get\<close> will throw an error). \<^verbatim>\<open>get\<close> does throw, but \<^verbatim>\<open>removeAll\<close>
  reads nothing that \<^verbatim>\<open>destroy\<close> released: it returns and assigns new empty objects
  to \<^verbatim>\<open>data\<close> and \<^verbatim>\<open>lruHash\<close>, after which the instance is in use again:
  \<^verbatim>\<open>get('a')\<close> returns \<^verbatim>\<open>undefined\<close>, \<^verbatim>\<open>put('a', 1)\<close> stores the value
  (line 240) before it throws at \<^verbatim>\<open>config.maxAge\<close> (line 244), and the
  \<^verbatim>\<open>get('a')\<close> that follows returns 1. \<^verbatim>\<open>info\<close> returns \<^verbatim>\<open>{size: 0}\<close>.
\<close>

theorem removeAll_after_destroy_returns:
  "AdvancedCache 0 (JString ''myCache'') [] = Inr plainCache
   \<and> fst (destroy plainCache) = Inr JUndefined
   \<and> fst (removeAll (snd (destroy plainCache))) = Inr JUndefined
   \<and> fst (get (JString ''a'') (snd (removeAll (snd (destroy plainCache))))) = Inr JUndefined
   \<and> info (snd (destroy plainCache)) = [(''size'', JNumber 0)]
   \<and> fst (get (JString ''a'') (snd (destroy plainCache))) = Inl TypeError
   \<and> fst (put (JString ''a'') (JNumber 1) JUndefined (snd (removeAll (snd (destroy plainCache)))))
       = Inl TypeError
   \<and> fst (get (JString ''a'')
            (snd (put (JString ''a'') (JNumber 1) JUndefined
                    (snd (removeAll (snd (destroy plainCache)))))))
       = Inr (JNumber 1)"
  by (simp add: plainCache_def cache_defs)

text \<open>
  C9 (corrected). The claim: \<^verbatim>\<open>info()\<close> returns exactly \<^verbatim>\<open>id\<close>,
  \<^verbatim>\<open>capacity\<close>, \<^verbatim>\<open>maxAge\<close>, \<^verbatim>\<open>flushInterval\<close> and \<^verbatim>\<open>size\<close>, and never a
  timer handle. The constructor stores the handle of the flush interval in
  \<^verbatim>\<open>config.cacheFlushIntervalId\<close> (line 95), and \<^verbatim>\<open>info\<close> copies
  \<^verbatim>\<open>config\<close>: for a cache with a flush interval the result holds the handle of the
  pending interval timer.
\<close>

theorem info_holds_interval_handle:
  "AdvancedCache 0 (JString ''myIntervalCache'')
     [(''capacity'', JNumber 1), (''cacheFlushInterval'', JNumber 10)] = Inr intervalCache
   \<and> map handle (timers intervalCache) = [1]
   \<and> map action (timers intervalCache) = [Flush]
   \<and> info intervalCache =
       [(''capacity'', JNumber 1), (''cacheFlushInterval'', JNumber 10),
        (''id'', JString ''myIntervalCache''), (''cacheFlushIntervalId'', JNumber 1),
        (''size'', JNumber 0)]"
  by (simp add: intervalCache_def cache_defs)

text \<open>
  C9 as amended: for a cache that was created and has not been destroyed, after any calls
  of \<^verbatim>\<open>put\<close>, \<^verbatim>\<open>get\<close>, \<^verbatim>\<open>remove\<close>, \<^verbatim>\<open>removeAll\<close> and any firing of
  timers, \<^verbatim>\<open>info()\<close> returns these properties and no other: \<^verbatim>\<open>size\<close>, the
  current size; \<^verbatim>\<open>cacheFlushIntervalId\<close>, the handle of the flush interval timer, when
  a flush interval is configured; \<^verbatim>\<open>capacity\<close>, which is
  \<^verbatim>\<open>Number.MAX_VALUE\<close> when the options give none; \<^verbatim>\<open>id\<close>; and every other
  property of the creation options (\<^verbatim>\<open>maxAge\<close>, \<^verbatim>\<open>cacheFlushInterval\<close>, and
  whatever else was passed) as given. So it holds neither the LRU list nor the timeout
  handle of an entry.
\<close>

theorem info_is_config_and_size:
  assumes "AdvancedCache t cacheId opts = Inr c" and "distinct (map fst opts)"
  shows "map_of (info (run es c)) k =
     (if k = ''size'' then Some (JNumber (sizeC (run es c)))
      else if k = ''cacheFlushIntervalId'' \<and> truthy (getProp opts ''cacheFlushInterval'')
        then Some (JNumber 1)
      else if k = ''capacity'' \<and> \<not> truthy (getProp opts ''capacity'')
        then Some (JNumber MAX_VALUE)
      else if k = ''id'' then Some cacheId
      else map_of opts k)"
proof -
  from created_config [OF assms] obtain cfg where
    cfg: "config c = Some cfg" and dc: "distinct (map fst cfg)" and m: "map_of cfg = (\<lambda>k.
       if k = ''cacheFlushIntervalId'' \<and> truthy (getProp opts ''cacheFlushInterval'')
         then Some (JNumber 1)
       else if k = ''capacity'' \<and> \<not> truthy (getProp opts ''capacity'')
         then Some (JNumber MAX_VALUE)
       else if k = ''id'' then Some cacheId
       else map_of opts k)" by blast
  have "info (run es c) =
      angular_extend (angular_extend [] cfg) [(''size'', JNumber (sizeC (run es c)))]"
    by (simp add: info_def cfg)
  then show ?thesis
    by (simp add: map_of_angular_extend dc m map_add_def)
qed

theorem info_is_config_and_size_witness:
  "AdvancedCache 0 (JString ''myIntervalCache'')
     [(''capacity'', JNumber 1), (''cacheFlushInterval'', JNumber 10)] = Inr intervalCache
   \<and> distinct (map fst [(''capacity'', JNumber 1), (''cacheFlushInterval'', JNumber 10)])
   \<and> map_of (info (run [Put (JString ''a'') (JNumber 1) JUndefined, Wait 3] intervalCache))
        ''timeoutId'' = None
   \<and> map_of (info (run [Put (JString ''a'') (JNumber 1) JUndefined, Wait 3] intervalCache))
        ''capacity'' = Some (JNumber 1)"
proof -
  have d: "distinct (map fst [(''capacity'', JNumber 1), (''cacheFlushInterval'', JNumber 10)])"
    by simp
  show ?thesis
    using intervalCache_created
      info_is_config_and_size [OF intervalCache_created d,
        of "[Put (JString ''a'') (JNumber 1) JUndefined, Wait 3]" "''timeoutId''"]
      info_is_config_and_size [OF intervalCache_created d,
        of "[Put (JString ''a'') (JNumber 1) JUndefined, Wait 3]" "''capacity''"]
    by (simp add: getProp_def)
qed

text \<open>
  C10 (corrected). The claim: \<^verbatim>\<open>touch\<close> moves the entry to the fresh end and does
  nothing if it is the fresh end already; if the entry is the stale end and another entry
  exists, the stale end is advanced to the entry's previous neighbour; if the entry is the
  only one, both ends point to it afterwards. The code assigns
  \<^verbatim>\<open>staleEnd = entry.n\<close> (line 165), the next neighbour, the one towards the fresh
  end. With \<open>a\<close> then \<open>b\<close> put, \<open>a\<close> is the stale end, its \<^verbatim>\<open>p\<close> link (previous)
  is \<^verbatim>\<open>null\<close> and its \<^verbatim>\<open>n\<close> link (next) is the entry of \<open>b\<close>; after
  \<^verbatim>\<open>_refresh\<close> of \<open>a\<close> the stale end is the entry of \<open>b\<close>.
\<close>

theorem refresh_stale_end_takes_next:
  "AdvancedCache 0 (JString ''myCache'') [] = Inr plainCache
   \<and> lruKeys twoKeys = [''a'', ''b'']
   \<and> staleEnd twoKeys = Obj 0 \<and> freshEnd twoKeys = Obj 1
   \<and> p (heap twoKeys ! 0) = Null \<and> n (heap twoKeys ! 0) = Obj 1
   \<and> staleEnd (refresh 0 twoKeys) = Obj 1
   \<and> lruKeys (refresh 0 twoKeys) = [''b'', ''a'']"
  by (simp add: twoKeys_def plainCache_def cache_defs lruKeys_def keyAt_def)

text \<open>
  C10 as amended: for an entry of the LRU list, \<^verbatim>\<open>_refresh\<close> moves it to the fresh
  end and keeps the order of the others; it changes nothing if the entry is the fresh end
  already; if the entry is the stale end and is not the fresh end, another entry exists
  and the stale end becomes the entry's next neighbour (its \<^verbatim>\<open>n\<close> link, the one
  towards the fresh end; its \<^verbatim>\<open>p\<close> link points to no entry); if the entry is the
  only one, both ends point to it afterwards.
\<close>

theorem refresh_moves_entry_to_fresh_end:
  assumes L: "lru_list c as" and mem: "a \<in> set as"
  shows "lru_list (refresh a c) (remove1 a as @ [a])
    \<and> freshEnd (refresh a c) = Obj a
    \<and> (freshEnd c = Obj a \<longrightarrow> refresh a c = c)
    \<and> (staleEnd c = Obj a \<and> freshEnd c \<noteq> Obj a \<longrightarrow>
         staleEnd (refresh a c) = n (heap c ! a)
         \<and> (\<exists>b bs. as = a # b # bs \<and> n (heap c ! a) = Obj b)
         \<and> \<not> isObj (p (heap c ! a)))
    \<and> (as = [a] \<longrightarrow> freshEnd (refresh a c) = Obj a \<and> staleEnd (refresh a c) = Obj a)"
proof (intro conjI impI)
  show "lru_list (refresh a c) (remove1 a as @ [a])"
    by (rule refresh_lru_list_present [OF L mem])
  show fr: "freshEnd (refresh a c) = Obj a"
    by (simp add: refresh_def Let_def)
  show "refresh a c = c" if "freshEnd c = Obj a"
    using that by (rule refresh_same)
  note D = lru_listD(3) [OF L] and S = lru_listD(4) [OF L] and F = lru_listD(5) [OF L]
    and dist = lru_listD(1) [OF L]
  {
    assume st: "staleEnd c = Obj a \<and> freshEnd c \<noteq> Obj a"
    show "staleEnd (refresh a c) = n (heap c ! a)"
      using st by (auto simp: refresh_def Let_def)
    from st S obtain rest where as: "as = a # rest" by (cases as) auto
    from st F as have "rest \<noteq> []" by (auto split: if_splits)
    then obtain b bs where rest: "rest = b # bs" by (cases rest) auto
    from D have "nxt (heap c) a = Some b" and pa: "prv (heap c) a = None"
      unfolding as rest by simp_all
    then show "\<exists>b bs. as = a # b # bs \<and> n (heap c ! a) = Obj b"
      unfolding as rest by (simp add: nxt_def)
    from pa show "\<not> isObj (p (heap c ! a))" by (simp add: prv_def)
  }
  {
    assume as: "as = [a]"
    with F have f: "freshEnd c = Obj a" by simp
    from as S have s: "staleEnd c = Obj a" by simp
    show "freshEnd (refresh a c) = Obj a" by (rule fr)
    show "staleEnd (refresh a c) = Obj a" using f s by (simp add: refresh_same)
  }
qed

theorem refresh_moves_entry_to_fresh_end_witness:
  "lru_list twoKeys [0, 1] \<and> 0 \<in> set [0, 1 :: nat]
   \<and> lru_list (refresh 0 twoKeys) [1, 0]
   \<and> freshEnd (refresh 0 twoKeys) = Obj 0
   \<and> staleEnd twoKeys = Obj 0 \<and> freshEnd twoKeys \<noteq> Obj 0
   \<and> staleEnd (refresh 0 twoKeys) = n (heap twoKeys ! 0)"
proof -
  have L: "lru_list twoKeys [0, 1]"
    by (simp add: twoKeys_def plainCache_def cache_defs lru_list_def nxt_def prv_def)
  have m: "0 \<in> set [0, 1 :: nat]" by simp
  have e: "staleEnd twoKeys = Obj 0" "freshEnd twoKeys \<noteq> Obj 0"
    by (simp_all add: twoKeys_def plainCache_def cache_defs)
  from refresh_moves_entry_to_fresh_end [OF L m] L e show ?thesis by simp
qed

end
